theory Spec2Isabelle
  imports Main
begin

section \<open>JavaScript strings\<close>

text \<open>
  Strings are character lists. A character stands for one code unit; the model covers the
  8-bit range, which contains every character the source compares against.
\<close>

definition startsWith :: "string \<Rightarrow> string \<Rightarrow> bool" where
  "startsWith s p = (take (length p) s = p)"

definition endsWith :: "string \<Rightarrow> string \<Rightarrow> bool" where
  "endsWith s d = (length d \<le> length s \<and> drop (length s - length d) s = d)"

fun str_includes :: "string \<Rightarrow> string \<Rightarrow> bool" where
  "str_includes [] sub = (sub = [])"
| "str_includes (c # cs) sub = (startsWith (c # cs) sub \<or> str_includes cs sub)"

text \<open>ASCII case folding, as the \<open>i\<close> flag of a regular expression applies it to a letter of the pattern.\<close>

definition lower :: "char \<Rightarrow> char" where
  "lower c = (case map_of (zip ''ABCDEFGHIJKLMNOPQRSTUVWXYZ'' ''abcdefghijklmnopqrstuvwxyz'') c of
                Some d \<Rightarrow> d | None \<Rightarrow> c)"

definition startsWithCI :: "string \<Rightarrow> string \<Rightarrow> bool" where
  "startsWithCI s p = (map lower (take (length p) s) = map lower p)"

text \<open>The class \<open>\s\<close>: tab, line feed, vertical tab, form feed, carriage return, space, no-break space.\<close>

definition isSpace :: "char \<Rightarrow> bool" where
  "isSpace c = (c \<in> set [CHR 0x09, CHR 0x0A, CHR 0x0B, CHR 0x0C, CHR 0x0D, CHR 0x20, CHR 0xA0])"

definition trim :: "string \<Rightarrow> string" where
  "trim s = rev (dropWhile isSpace (rev (dropWhile isSpace s)))"

text \<open>\<open>s.split(',')\<close>: the pieces between commas; a string without a comma is one piece.\<close>

fun split_comma :: "string \<Rightarrow> string list" where
  "split_comma [] = [[]]"
| "split_comma (c # cs) =
     (if c = CHR '','' then [] # split_comma cs
      else (case split_comma cs of p # ps \<Rightarrow> (c # p) # ps | [] \<Rightarrow> [[c]]))"

text \<open>
  Truthiness of a value that is a string or \<open>undefined\<close>/\<open>null\<close> (\<open>None\<close>): only a
  non-empty string is truthy. \<open>js_or a b\<close> is \<open>a || b\<close>.
\<close>

definition truthy :: "string option \<Rightarrow> bool" where
  "truthy v = (case v of None \<Rightarrow> False | Some s \<Rightarrow> s \<noteq> [])"

definition js_or :: "string option \<Rightarrow> string option \<Rightarrow> string option" where
  "js_or a b = (if truthy a then a else b)"

section \<open>The URL constructor\<close>

text \<open>
  \<open>new URL(input)\<close> and \<open>new URL(input, base)\<close> come from the platform, not from this
  repository. The functions below take the constructor as a parameter \<open>URL\<close>: the result
  \<open>None\<close> is the thrown \<open>TypeError\<close>, \<open>Some u\<close> the parsed URL with the three
  properties the code reads.
\<close>

record url =
  href :: string
  hostname :: string
  origin :: string

type_synonym url_ctor = "string \<Rightarrow> string option \<Rightarrow> url option"

text \<open>
  A concrete constructor for evaluating the functions at explicit inputs. It covers the
  fragment \<open>http(s)://host/path\<close> with a host of letters, digits, dots and hyphens, and
  root-relative references against such a base; everything else is rejected.
\<close>

definition hostChar :: "char \<Rightarrow> bool" where
  "hostChar c = (c \<in> set ''abcdefghijklmnopqrstuvwxyz0123456789.-'')"

definition basicAbsolute :: "string \<Rightarrow> url option" where
  "basicAbsolute input =
     (case (if startsWithCI input ''https://'' then Some (''https'', drop 8 input)
            else if startsWithCI input ''http://'' then Some (''http'', drop 7 input)
            else None) of
        None \<Rightarrow> None
      | Some (scheme, rest) \<Rightarrow>
          (let host = map lower (takeWhile (\<lambda>c. c \<notin> set ''/?#'') rest);
               tail = dropWhile (\<lambda>c. c \<notin> set ''/?#'') rest
           in if host = [] \<or> \<not> list_all hostChar host then None
              else Some \<lparr> href = scheme @ ''://'' @ host @
                                 (if startsWith tail ''/'' then tail else ''/'' @ tail),
                          hostname = host,
                          origin = scheme @ ''://'' @ host \<rparr>))"

definition basicURL :: url_ctor where
  "basicURL input base =
     (case basicAbsolute input of
        Some u \<Rightarrow> Some u
      | None \<Rightarrow>
          (case base of
             None \<Rightarrow> None
           | Some b \<Rightarrow>
               (case basicAbsolute b of
                  None \<Rightarrow> None
                | Some bu \<Rightarrow>
                    if startsWith input ''/'' \<and> \<not> startsWith input ''//''
                    then Some \<lparr> href = origin bu @ input, hostname = hostname bu,
                                origin = origin bu \<rparr>
                    else None)))"

section \<open>Allowlist\<close>

text \<open>
  \<open>const ALLOWLIST = process.env.ALLOWLIST?.split(',').map(d => d.trim()) || []\<close>;
  the argument is the environment variable, \<open>None\<close> when it is not set. (The first
  variant in server.js has the constant \<open>[]\<close> instead.)
\<close>

definition ALLOWLIST_of_env :: "string option \<Rightarrow> string list" where
  "ALLOWLIST_of_env env = (case env of None \<Rightarrow> [] | Some v \<Rightarrow> map trim (split_comma v))"

text \<open>
  \<open>isAllowed(urlStr)\<close>: the \<open>catch\<close> branch returns \<open>false\<close>; an empty list allows every
  parsed URL; otherwise \<open>ALLOWLIST.some(d => u.hostname.endsWith(d))\<close>.
\<close>

definition isAllowed :: "url_ctor \<Rightarrow> string list \<Rightarrow> string \<Rightarrow> bool" where
  "isAllowed URL ALLOWLIST urlStr =
     (case URL urlStr None of
        None \<Rightarrow> False
      | Some u \<Rightarrow>
          if length ALLOWLIST = 0 then True
          else list_ex (\<lambda>d. endsWith (hostname u) d) ALLOWLIST)"

section \<open>The manifest pattern\<close>

text \<open>
  \<open>/(https?:\/\/[^\s"'\\]+?\.m3u8[^\s"'\\]*)/gi\<close>. \<open>urlChar\<close> is the class
  \<open>[^\s"'\\]\<close>. \<open>matchAt s\<close> is the text the pattern matches at the start of \<open>s\<close>, in the
  order in which a backtracking matcher tries the alternatives: the optional \<open>s\<close> first
  taken, then left out; the lazy run as short as possible, at least one character; the
  final run as long as possible.
\<close>

definition urlChar :: "char \<Rightarrow> bool" where
  "urlChar c = (\<not> isSpace c \<and> c \<noteq> CHR 0x22 \<and> c \<noteq> CHR 0x27 \<and> c \<noteq> CHR 0x5C)"

fun lazyBody :: "string \<Rightarrow> string option" where
  "lazyBody [] = None"
| "lazyBody (c # cs) =
     (if startsWithCI (c # cs) ''.m3u8''
      then Some (take 5 (c # cs) @ takeWhile urlChar (drop 5 (c # cs)))
      else if urlChar c then map_option ((#) c) (lazyBody cs) else None)"

definition afterScheme :: "string \<Rightarrow> string option" where
  "afterScheme s =
     (if startsWith s ''://''
      then (case drop 3 s of
              [] \<Rightarrow> None
            | c # cs \<Rightarrow> if urlChar c then map_option (\<lambda>m. ''://'' @ c # m) (lazyBody cs) else None)
      else None)"

definition matchAt :: "string \<Rightarrow> string option" where
  "matchAt s =
     (if startsWithCI s ''http''
      then (case (case drop 4 s of
                    [] \<Rightarrow> None
                  | c # cs \<Rightarrow> if lower c = CHR ''s'' then map_option ((#) c) (afterScheme cs) else None) of
              Some m \<Rightarrow> Some (take 4 s @ m)
            | None \<Rightarrow> map_option ((@) (take 4 s)) (afterScheme (drop 4 s)))
      else None)"

text \<open>
  \<open>re.exec(text)\<close> of a global pattern: the search starts at \<open>lastIndex\<close> and tries each
  later start in turn; a match comes with the new \<open>lastIndex\<close>, the index after it.
\<close>

fun search :: "string \<Rightarrow> nat \<Rightarrow> (string \<times> nat) option" where
  "search [] i = None"
| "search (c # cs) i =
     (case matchAt (c # cs) of
        Some m \<Rightarrow> Some (m, i + length m)
      | None \<Rightarrow> search cs (Suc i))"

definition re_exec :: "string \<Rightarrow> nat \<Rightarrow> (string \<times> nat) option" where
  "re_exec text lastIndex = search (drop lastIndex text) lastIndex"

lemma lazyBody_bounds:
  "lazyBody s = Some m \<Longrightarrow> length m \<le> length s"
proof (induction s arbitrary: m)
  case Nil
  then show ?case by simp
next
  case (Cons c cs)
  show ?case
  proof (cases "startsWithCI (c # cs) ''.m3u8''")
    case True
    have "length (takeWhile urlChar (drop 5 (c # cs))) \<le> length (drop 5 (c # cs))"
      by (rule length_takeWhile_le)
    with True Cons.prems show ?thesis by auto
  next
    case False
    with Cons.prems obtain m' where "lazyBody cs = Some m'" "m = c # m'"
      by (auto split: if_splits)
    with Cons.IH show ?thesis by auto
  qed
qed

lemma afterScheme_bounds:
  "afterScheme s = Some m \<Longrightarrow> length m \<le> length s"
proof -
  assume a: "afterScheme s = Some m"
  then have st: "startsWith s ''://''"
    by (auto simp: afterScheme_def split: if_splits)
  from a st obtain c cs m' where d: "drop 3 s = c # cs" "lazyBody cs = Some m'" "m = ''://'' @ c # m'"
    by (auto simp: afterScheme_def split: if_splits list.splits)
  have "length m' \<le> length cs" using d(2) by (rule lazyBody_bounds)
  moreover have "length s - 3 = Suc (length cs)" using d(1)
    by (metis length_drop length_Cons)
  ultimately show ?thesis using d(3) by simp
qed

lemma matchAt_bounds:
  assumes "matchAt s = Some m"
  shows "0 < length m \<and> length m \<le> length s"
proof -
  from assms have h: "startsWithCI s ''http''"
    by (auto simp: matchAt_def split: if_splits)
  then have l4: "4 \<le> length s"
    by (auto simp: startsWithCI_def dest!: arg_cong [where f = length])
  have "\<exists>r. m = take 4 s @ r \<and> length r \<le> length s - 4"
  proof (cases "afterScheme (drop 4 s)")
    case (Some r)
    with assms h have "m = take 4 s @ r \<or> (\<exists>c cs r'. drop 4 s = c # cs \<and> afterScheme cs = Some r' \<and> m = take 4 s @ c # r')"
      by (auto simp: matchAt_def split: if_splits list.splits option.splits)
    then show ?thesis
    proof
      assume "m = take 4 s @ r"
      with afterScheme_bounds [OF Some] show ?thesis
        by (intro exI [of _ r]) simp
    next
      assume "\<exists>c cs r'. drop 4 s = c # cs \<and> afterScheme cs = Some r' \<and> m = take 4 s @ c # r'"
      then obtain c cs r' where d: "drop 4 s = c # cs" "afterScheme cs = Some r'" "m = take 4 s @ c # r'"
        by blast
      have "length s - 4 = Suc (length cs)" using d(1) by (metis length_drop length_Cons)
      with afterScheme_bounds [OF d(2)] d(3) show ?thesis
        by (intro exI [of _ "c # r'"]) simp
    qed
  next
    case None
    with assms h obtain c cs r' where d: "drop 4 s = c # cs" "afterScheme cs = Some r'" "m = take 4 s @ c # r'"
      by (auto simp: matchAt_def split: if_splits list.splits option.splits)
    have "length s - 4 = Suc (length cs)" using d(1) by (metis length_drop length_Cons)
    with afterScheme_bounds [OF d(2)] d(3) show ?thesis
      by (intro exI [of _ "c # r'"]) simp
  qed
  then obtain r where "m = take 4 s @ r" "length r \<le> length s - 4"
    by blast
  with l4 show ?thesis by simp
qed

lemma search_bounds:
  "search s i = Some (m, j) \<Longrightarrow> i < j \<and> j \<le> i + length s"
proof (induction s arbitrary: i)
  case Nil
  then show ?case by simp
next
  case (Cons c cs)
  show ?case
  proof (cases "matchAt (c # cs)")
    case None
    with Cons.prems have "search cs (Suc i) = Some (m, j)" by simp
    from Cons.IH [OF this] show ?thesis by simp
  next
    case (Some m')
    with Cons.prems have "j = i + length m'" by auto
    with matchAt_bounds [OF Some] show ?thesis by simp
  qed
qed

lemma re_exec_bounds:
  assumes "re_exec text lastIndex = Some (m, j)"
  shows "lastIndex < j \<and> j \<le> length text"
proof -
  from assms have s: "search (drop lastIndex text) lastIndex = Some (m, j)"
    by (simp add: re_exec_def)
  then have "drop lastIndex text \<noteq> []" by auto
  then have "lastIndex < length text" by simp
  with search_bounds [OF s] show ?thesis by simp
qed

section \<open>The candidate set\<close>

text \<open>
  A JavaScript \<open>Set\<close> of strings keeps its members in insertion order and ignores the
  insertion of a member it already has; \<open>Array.from\<close> lists it in that order.
\<close>

definition set_add :: "string list \<Rightarrow> string \<Rightarrow> string list" where
  "set_add candidates x = (if x \<in> set candidates then candidates else candidates @ [x])"

datatype js_error = TypeError string

text \<open>
  The loop \<open>while ((m = re.exec(text)) !== null) { try { candidates.add(new URL(m[1],
  baseUrl).href) } catch {} }\<close>, from a given \<open>lastIndex\<close>.
\<close>

function scanLoop :: "url_ctor \<Rightarrow> string \<Rightarrow> string \<Rightarrow> nat \<Rightarrow> string list \<Rightarrow> string list" where
  "scanLoop URL baseUrl text lastIndex candidates =
     (case re_exec text lastIndex of
        None \<Rightarrow> candidates
      | Some (m, j) \<Rightarrow>
          scanLoop URL baseUrl text j
            (case URL m (Some baseUrl) of
               None \<Rightarrow> candidates
             | Some u \<Rightarrow> set_add candidates (href u)))"
  by pat_completeness auto
termination
  by (relation "measure (\<lambda>(URL, baseUrl, text, lastIndex, candidates). length text - lastIndex)")
     (auto dest: re_exec_bounds)

declare scanLoop.simps [simp del]

section \<open>The parsed document\<close>

text \<open>
  \<open>cheerio.load(html)\<close> comes from a library. The functions below take it as a parameter
  \<open>load\<close> that yields the elements of the parsed document in document order, each with
  its tag name, its attributes, its inner HTML (\<open>.html()\<close>) and its text (\<open>.text()\<close>).
\<close>

record element =
  tagName :: string
  attribs :: "(string \<times> string) list"
  innerHtml :: string
  innerText :: string

type_synonym cheerio = "string \<Rightarrow> element list"

definition attr :: "element \<Rightarrow> string \<Rightarrow> string option" where
  "attr el name = map_of (attribs el) name"

definition attrContains :: "element \<Rightarrow> string \<Rightarrow> string \<Rightarrow> bool" where
  "attrContains el name sub = (case attr el name of None \<Rightarrow> False | Some v \<Rightarrow> str_includes v sub)"

text \<open>The selector \<open>source[src*=".m3u8"], a[href*=".m3u8"], video[src*=".m3u8"]\<close>.\<close>

definition manifestSelector :: "element \<Rightarrow> bool" where
  "manifestSelector el =
     (tagName el = ''source'' \<and> attrContains el ''src'' ''.m3u8''
      \<or> tagName el = ''a'' \<and> attrContains el ''href'' ''.m3u8''
      \<or> tagName el = ''video'' \<and> attrContains el ''src'' ''.m3u8'')"

section \<open>extractM3U8\<close>

text \<open>
  The first pass: \<open>const src = $(el).attr('src') || $(el).attr('href'); if (src)
  candidates.add(new URL(src, baseUrl).href)\<close>. There is no \<open>try\<close> around the constructor
  here, so its \<open>TypeError\<close> leaves the function.
\<close>

fun domPass :: "url_ctor \<Rightarrow> string \<Rightarrow> element list \<Rightarrow> string list \<Rightarrow> js_error + string list" where
  "domPass URL baseUrl [] candidates = Inr candidates"
| "domPass URL baseUrl (el # els) candidates =
     (case js_or (attr el ''src'') (attr el ''href'') of
        None \<Rightarrow> domPass URL baseUrl els candidates
      | Some src \<Rightarrow>
          if src = [] then domPass URL baseUrl els candidates
          else (case URL src (Some baseUrl) of
                  None \<Rightarrow> Inl (TypeError ''Invalid URL'')
                | Some u \<Rightarrow> domPass URL baseUrl els (set_add candidates (href u))))"

text \<open>The second pass, over the \<open>script\<close> elements: \<open>const text = $(el).html() || ''\<close>.\<close>

fun scriptPass :: "url_ctor \<Rightarrow> string \<Rightarrow> element list \<Rightarrow> string list \<Rightarrow> string list" where
  "scriptPass URL baseUrl [] candidates = candidates"
| "scriptPass URL baseUrl (el # els) candidates =
     scriptPass URL baseUrl els (scanLoop URL baseUrl (innerHtml el) 0 candidates)"

text \<open>
  The three passes over a set that already holds \<open>candidates\<close>; \<open>extractM3U8\<close> starts
  them from \<open>new Set()\<close>.
\<close>

definition passes :: "url_ctor \<Rightarrow> cheerio \<Rightarrow> string \<Rightarrow> string \<Rightarrow> string list \<Rightarrow> js_error + string list" where
  "passes URL load html baseUrl candidates =
     (case domPass URL baseUrl (filter manifestSelector (load html)) candidates of
        Inl e \<Rightarrow> Inl e
      | Inr c1 \<Rightarrow>
          Inr (scanLoop URL baseUrl html 0
                 (scriptPass URL baseUrl (filter (\<lambda>el. tagName el = ''script'') (load html)) c1)))"

definition extractM3U8 :: "url_ctor \<Rightarrow> cheerio \<Rightarrow> string \<Rightarrow> string \<Rightarrow> js_error + string list" where
  "extractM3U8 URL load html baseUrl = passes URL load html baseUrl []"

section \<open>extractMeta\<close>

record page_meta =
  title :: "string option"
  ogTitle :: "string option"
  ogVideo :: "string option"
  ogDescription :: "string option"

text \<open>\<open>$('meta[property="..."]').attr('content') || null\<close>: the attribute of the first match.\<close>

definition metaContent :: "element list \<Rightarrow> string \<Rightarrow> string option" where
  "metaContent doc prop =
     js_or (case List.find (\<lambda>el. tagName el = ''meta'' \<and> attr el ''property'' = Some prop) doc of
              None \<Rightarrow> None
            | Some el \<Rightarrow> attr el ''content'') None"

definition extractMeta :: "cheerio \<Rightarrow> string \<Rightarrow> page_meta" where
  "extractMeta load html =
     (let doc = load html in
      \<lparr> title = js_or (Some (trim (case List.find (\<lambda>el. tagName el = ''title'') doc of
                                     None \<Rightarrow> [] | Some el \<Rightarrow> innerText el))) None,
        ogTitle = metaContent doc ''og:title'',
        ogVideo = metaContent doc ''og:video'',
        ogDescription = metaContent doc ''og:description'' \<rparr>)"

section \<open>Selecting the best candidate\<close>

text \<open>\<open>/master|index|playlist/i.test(u)\<close>.\<close>

definition tokenTest :: "string \<Rightarrow> bool" where
  "tokenTest u = list_ex (\<lambda>t. str_includes (map lower u) t) [''master'', ''index'', ''playlist'']"

text \<open>\<open>urls.find(u => /master|index|playlist/i.test(u)) || urls[0] || null\<close>.\<close>

definition pickBest :: "string list \<Rightarrow> string option" where
  "pickBest urls =
     js_or (js_or (List.find tokenTest urls) (case urls of [] \<Rightarrow> None | u # _ \<Rightarrow> Some u)) None"

section \<open>Responses\<close>

datatype json = JNull | JBool bool | JStr string | JArr "json list" | JObj "(string \<times> json) list"

datatype body = NoBody | JsonBody json | TextBody string | StreamBody string

record response =
  status :: nat
  headers :: "(string \<times> string) list"
  body :: body

text \<open>\<open>res.setHeader(name, value)\<close>: header names are kept in lower case; a second value replaces the first.\<close>

fun setHeader :: "string \<Rightarrow> string \<Rightarrow> (string \<times> string) list \<Rightarrow> (string \<times> string) list" where
  "setHeader h v [] = [(map lower h, v)]"
| "setHeader h v ((k, w) # hs) =
     (if k = map lower h then (k, v) # hs else (k, w) # setHeader h v hs)"

text \<open>
  The response object as a route handler receives it: the status code is 200 until the
  handler sets another, and the middleware in front of the routes has set three headers.
\<close>

definition cors :: response where
  "cors = \<lparr> status = 200,
            headers = setHeader ''Access-Control-Allow-Methods'' ''GET, OPTIONS''
                       (setHeader ''Access-Control-Allow-Headers''
                          ''Origin, X-Requested-With, Content-Type, Accept, Range''
                          (setHeader ''Access-Control-Allow-Origin'' ''*'' [])),
            body = NoBody \<rparr>"

definition json_of_opt :: "string option \<Rightarrow> json" where
  "json_of_opt v = (case v of None \<Rightarrow> JNull | Some s \<Rightarrow> JStr s)"

definition json_of_meta :: "page_meta \<Rightarrow> json" where
  "json_of_meta m = JObj [(''title'', json_of_opt (title m)), (''ogTitle'', json_of_opt (ogTitle m)),
                          (''ogVideo'', json_of_opt (ogVideo m)),
                          (''ogDescription'', json_of_opt (ogDescription m))]"

section \<open>The HTTP client\<close>

text \<open>
  What the network answers to one GET, after the client has followed redirects: a fault
  with its message (connection error, timeout, too many redirects) or a response.
  \<open>axios_get\<close> is the client's settling of that answer: a response whose status fails
  \<open>validateStatus\<close> is rejected with the client's message for it.
\<close>

record axios_response =
  resp_status :: nat
  resp_headers :: "(string \<times> string) list"
  resp_data :: string
  responseUrl :: "string option"

datatype net_outcome = NetworkError string | HttpResponse axios_response

fun show_nat :: "nat \<Rightarrow> string" where
  "show_nat n = (if n < 10 then [''0123456789'' ! n]
                 else show_nat (n div 10) @ [''0123456789'' ! (n mod 10)])"

declare show_nat.simps [simp del]

definition axios_get :: "(nat \<Rightarrow> bool) \<Rightarrow> net_outcome \<Rightarrow> string + axios_response" where
  "axios_get validateStatus outcome =
     (case outcome of
        NetworkError msg \<Rightarrow> Inl msg
      | HttpResponse r \<Rightarrow>
          if validateStatus (resp_status r) then Inr r
          else Inl (''Request failed with status code '' @ show_nat (resp_status r)))"

text \<open>The client's own \<open>validateStatus\<close>, used where the code passes none.\<close>

definition defaultValidateStatus :: "nat \<Rightarrow> bool" where
  "defaultValidateStatus s = (200 \<le> s \<and> s < 300)"

definition userAgent :: string where
  "userAgent = ''Mozilla/5.0 (Windows NT 10.0; Win64; x64) AppleWebKit/537.36 '' @
               ''(KHTML, like Gecko) Chrome/126.0.0.0 Safari/537.36''"

record upstream_request =
  req_url :: string
  req_userAgent :: string
  req_range :: "string option"
  req_referer :: "string option"
  req_maxRedirects :: nat
  req_timeout :: nat

section \<open>/scrape, static variant (server.js)\<close>

definition scrapeError :: "string \<Rightarrow> string \<Rightarrow> response" where
  "scrapeError fallback msg =
     cors \<lparr> status := 500,
            body := JsonBody (JObj [(''ok'', JBool False),
                                    (''error'', JStr (if msg \<noteq> [] then msg else fallback))]) \<rparr>"

definition scrapeOk :: "string \<Rightarrow> page_meta \<Rightarrow> string list \<Rightarrow> string option \<Rightarrow> response" where
  "scrapeOk page meta m3u8Urls best =
     cors \<lparr> body := JsonBody (JObj [(''ok'', JBool True), (''page'', JStr page),
                                    (''meta'', json_of_meta meta),
                                    (''m3u8Urls'', JArr (map JStr m3u8Urls)),
                                    (''best'', json_of_opt best)]) \<rparr>"

text \<open>
  \<open>target_q\<close> is \<open>req.query.url\<close>; \<open>net\<close> answers the request for the page. The two
  early returns send \<open>{ error: ... }\<close>.
\<close>

definition pageRequest :: "string \<Rightarrow> upstream_request" where
  "pageRequest target =
     \<lparr> req_url = target, req_userAgent = userAgent, req_range = None, req_referer = None,
       req_maxRedirects = 5, req_timeout = 15000 \<rparr>"

definition scrape_static ::
  "url_ctor \<Rightarrow> cheerio \<Rightarrow> string list \<Rightarrow> (upstream_request \<Rightarrow> net_outcome) \<Rightarrow> string option \<Rightarrow> response" where
  "scrape_static URL load ALLOWLIST net target_q =
     (case target_q of
        None \<Rightarrow> cors \<lparr> status := 400, body := JsonBody (JObj [(''error'', JStr ''Missing ?url='')]) \<rparr>
      | Some target \<Rightarrow>
          if target = []
          then cors \<lparr> status := 400, body := JsonBody (JObj [(''error'', JStr ''Missing ?url='')]) \<rparr>
          else if \<not> isAllowed URL ALLOWLIST target
          then cors \<lparr> status := 403, body := JsonBody (JObj [(''error'', JStr ''Domain not allowed'')]) \<rparr>
          else
            (case axios_get defaultValidateStatus (net (pageRequest target)) of
               Inl msg \<Rightarrow> scrapeError ''Fetch failed'' msg
             | Inr response \<Rightarrow>
                 (let html = resp_data response;
                      baseUrl = (case js_or (responseUrl response) (Some target) of
                                   None \<Rightarrow> target | Some b \<Rightarrow> b)
                  in case extractM3U8 URL load html baseUrl of
                       Inl (TypeError msg) \<Rightarrow> scrapeError ''Fetch failed'' msg
                     | Inr m3u8Urls \<Rightarrow>
                         scrapeOk baseUrl (extractMeta load html) m3u8Urls (pickBest m3u8Urls))))"

section \<open>/scrape, rendered variant\<close>

text \<open>
  What the headless browser gives for a target: a fault with its message (launch,
  navigation, timeout), or the final URL, the rendered HTML and the URLs of the requests
  the page made, in the order of the \<open>request\<close> events.
\<close>

datatype render_outcome = RenderFailed string | Rendered string string "string list"

text \<open>\<open>page.on('request', req => { const url = req.url(); if (url.includes('.m3u8')) m3u8Urls.add(url) })\<close>.\<close>

definition onRequest :: "string list \<Rightarrow> string \<Rightarrow> string list" where
  "onRequest m3u8Urls url = (if str_includes url ''.m3u8'' then set_add m3u8Urls url else m3u8Urls)"

definition scrape_rendered ::
  "url_ctor \<Rightarrow> cheerio \<Rightarrow> string list \<Rightarrow> (string \<Rightarrow> render_outcome) \<Rightarrow> string option \<Rightarrow> response" where
  "scrape_rendered URL load ALLOWLIST render target_q =
     (case target_q of
        None \<Rightarrow> cors \<lparr> status := 400,
                       body := JsonBody (JObj [(''ok'', JBool False), (''error'', JStr ''Missing ?url='')]) \<rparr>
      | Some target \<Rightarrow>
          if target = []
          then cors \<lparr> status := 400,
                      body := JsonBody (JObj [(''ok'', JBool False), (''error'', JStr ''Missing ?url='')]) \<rparr>
          else if \<not> isAllowed URL ALLOWLIST target
          then cors \<lparr> status := 403,
                      body := JsonBody (JObj [(''ok'', JBool False), (''error'', JStr ''Domain not allowed'')]) \<rparr>
          else
            (case render target of
               RenderFailed msg \<Rightarrow> scrapeError ''Puppeteer failed'' msg
             | Rendered finalUrl html reqs \<Rightarrow>
                 (let m3u8Urls = foldl onRequest [] reqs;
                      meta = extractMeta load html;
                      urls = m3u8Urls
                  in scrapeOk finalUrl meta urls (pickBest urls))))"

section \<open>/proxy\<close>

definition passthrough :: "string list" where
  "passthrough = [''content-type'', ''content-length'', ''accept-ranges'', ''content-range'',
                  ''etag'', ''last-modified'', ''cache-control'', ''access-control-allow-origin'']"

text \<open>\<open>passthrough.forEach(h => { const v = upstream.headers[h]; if (v) res.setHeader(h, v) })\<close>.\<close>

definition mirrorHeaders :: "(string \<times> string) list \<Rightarrow> (string \<times> string) list \<Rightarrow> (string \<times> string) list" where
  "mirrorHeaders upstream hs =
     foldl (\<lambda>acc h. case map_of upstream h of
                        None \<Rightarrow> acc
                      | Some v \<Rightarrow> if v = [] then acc else setHeader h v acc)
           hs passthrough"

definition upstreamError :: "string \<Rightarrow> response" where
  "upstreamError msg =
     cors \<lparr> status := 502,
            body := TextBody (''Upstream error: '' @ (if msg \<noteq> [] then msg else ''Bad gateway'')) \<rparr>"

text \<open>The configuration of the upstream GET, without \<open>responseType\<close> and \<open>validateStatus\<close>.\<close>

definition proxyRequest :: "url \<Rightarrow> string \<Rightarrow> string option \<Rightarrow> upstream_request" where
  "proxyRequest u src rangeHeader =
     \<lparr> req_url = src, req_userAgent = userAgent, req_range = js_or rangeHeader None,
       req_referer = Some (origin u), req_maxRedirects = 5, req_timeout = 20000 \<rparr>"

text \<open>
  \<open>src_q\<close> is \<open>req.query.src\<close>, \<open>rangeHeader\<close> is \<open>req.headers['range']\<close>. The result is the
  response together with the upstream requests the handler issued, in order. On success
  the handler sets headers and pipes the upstream body; it does not set a status code.
\<close>

definition proxy ::
  "url_ctor \<Rightarrow> string list \<Rightarrow> (upstream_request \<Rightarrow> net_outcome) \<Rightarrow> string option \<Rightarrow> string option
     \<Rightarrow> response \<times> upstream_request list" where
  "proxy URL ALLOWLIST net src_q rangeHeader =
     (case src_q of
        None \<Rightarrow> (cors \<lparr> status := 400, body := TextBody ''Missing ?src='' \<rparr>, [])
      | Some src \<Rightarrow>
          if src = [] then (cors \<lparr> status := 400, body := TextBody ''Missing ?src='' \<rparr>, [])
          else if \<not> isAllowed URL ALLOWLIST src
          then (cors \<lparr> status := 403, body := TextBody ''Domain not allowed'' \<rparr>, [])
          else
            (case URL src None of
               None \<Rightarrow> (upstreamError ''Invalid URL'', [])
             | Some u \<Rightarrow>
                 (let request = proxyRequest u src rangeHeader
                  in case axios_get (\<lambda>s. 200 \<le> s \<and> s < 400) (net request) of
                       Inl msg \<Rightarrow> (upstreamError msg, [request])
                     | Inr upstream \<Rightarrow>
                         (cors \<lparr> headers := setHeader ''Access-Control-Allow-Origin'' ''*''
                                              (mirrorHeaders (resp_headers upstream) (headers cors)),
                                 body := StreamBody (resp_data upstream) \<rparr>,
                          [request]))))"

section \<open>Reading a response\<close>

text \<open>The member \<open>k\<close> of a JSON object body, \<open>None\<close> when the body has no such member.\<close>

definition bodyField :: "response \<Rightarrow> string \<Rightarrow> json option" where
  "bodyField r k = (case body r of JsonBody (JObj kvs) \<Rightarrow> map_of kvs k | _ \<Rightarrow> None)"

text \<open>
  The selection of a response agrees with its candidate list: \<open>best\<close> is \<open>null\<close> or one of
  the strings of \<open>m3u8Urls\<close>; a body without \<open>best\<close> has no \<open>m3u8Urls\<close> either.
\<close>

definition selectionConsistent :: "response \<Rightarrow> bool" where
  "selectionConsistent r =
     (case bodyField r ''best'' of
        None \<Rightarrow> bodyField r ''m3u8Urls'' = None
      | Some JNull \<Rightarrow> (\<exists>urls. bodyField r ''m3u8Urls'' = Some (JArr urls))
      | Some (JStr b) \<Rightarrow> (\<exists>urls. bodyField r ''m3u8Urls'' = Some (JArr urls) \<and> JStr b \<in> set urls)
      | Some _ \<Rightarrow> False)"

text \<open>
  The selector's criterion in the words of its description: the URL text, compared without
  regard to case, contains one of the three tokens.
\<close>

definition mentionsToken :: "string \<Rightarrow> bool" where
  "mentionsToken u = (\<exists>t \<in> {''master'', ''index'', ''playlist''}. \<exists>p q. map lower u = p @ t @ q)"

section \<open>An example environment\<close>

text \<open>
  Two pages with the documents the parser builds for them, a network and a browser that
  serve them. They instantiate the parameters where a property is evaluated at explicit
  inputs.
\<close>

definition pageHtml :: string where
  \<open>pageHtml = ''<video src="/a.m3u8"></video><script>var u = "https://cdn.test/x/master.m3u8?t=1";</script>''\<close>

definition pageDoc :: "element list" where
  \<open>pageDoc =
     [\<lparr> tagName = ''html'', attribs = [], innerHtml = ''<head></head><body>'' @ pageHtml @ ''</body>'',
         innerText = ''var u = "https://cdn.test/x/master.m3u8?t=1";'' \<rparr>,
      \<lparr> tagName = ''head'', attribs = [], innerHtml = [], innerText = [] \<rparr>,
      \<lparr> tagName = ''body'', attribs = [], innerHtml = pageHtml,
         innerText = ''var u = "https://cdn.test/x/master.m3u8?t=1";'' \<rparr>,
      \<lparr> tagName = ''video'', attribs = [(''src'', ''/a.m3u8'')], innerHtml = [], innerText = [] \<rparr>,
      \<lparr> tagName = ''script'', attribs = [],
         innerHtml = ''var u = "https://cdn.test/x/master.m3u8?t=1";'',
         innerText = ''var u = "https://cdn.test/x/master.m3u8?t=1";'' \<rparr>]\<close>

definition brokenHtml :: string where
  \<open>brokenHtml = ''<a href="http://[.m3u8">x</a>''\<close>

definition brokenDoc :: "element list" where
  \<open>brokenDoc =
     [\<lparr> tagName = ''html'', attribs = [], innerHtml = ''<head></head><body>'' @ brokenHtml @ ''</body>'',
         innerText = ''x'' \<rparr>,
      \<lparr> tagName = ''head'', attribs = [], innerHtml = [], innerText = [] \<rparr>,
      \<lparr> tagName = ''body'', attribs = [], innerHtml = brokenHtml, innerText = ''x'' \<rparr>,
      \<lparr> tagName = ''a'', attribs = [(''href'', ''http://[.m3u8'')], innerHtml = ''x'',
         innerText = ''x'' \<rparr>]\<close>

definition exampleLoad :: cheerio where
  "exampleLoad html =
     (if html = pageHtml then pageDoc else if html = brokenHtml then brokenDoc else [])"

definition exampleNet :: "upstream_request \<Rightarrow> net_outcome" where
  "exampleNet r =
     (if req_url r = ''https://h.test/p''
      then HttpResponse \<lparr> resp_status = 200, resp_headers = [(''content-type'', ''text/html'')],
                          resp_data = pageHtml, responseUrl = Some ''https://h.test/p'' \<rparr>
      else if req_url r = ''https://h.test/broken''
      then HttpResponse \<lparr> resp_status = 200, resp_headers = [(''content-type'', ''text/html'')],
                          resp_data = brokenHtml, responseUrl = Some ''https://h.test/broken'' \<rparr>
      else if req_url r = ''https://cdn.test/x/seg1.ts'' \<and> req_range r = Some ''bytes=0-99''
      then HttpResponse \<lparr> resp_status = 206,
                          resp_headers = [(''content-type'', ''video/mp2t''),
                                          (''content-length'', ''100''),
                                          (''content-range'', ''bytes 0-99/1000''),
                                          (''server'', ''cdn'')],
                          resp_data = ''first hundred bytes'',
                          responseUrl = Some ''https://cdn.test/x/seg1.ts'' \<rparr>
      else if req_url r = ''https://cdn.test/missing.m3u8''
      then HttpResponse \<lparr> resp_status = 404, resp_headers = [], resp_data = ''not found'',
                          responseUrl = Some ''https://cdn.test/missing.m3u8'' \<rparr>
      else NetworkError ''getaddrinfo ENOTFOUND'')"

definition exampleRender :: "string \<Rightarrow> render_outcome" where
  "exampleRender target =
     (if target = ''https://h.test/p''
      then Rendered ''https://h.test/p'' pageHtml
             [''https://h.test/p'', ''https://cdn.test/x/master.m3u8?t=1'',
              ''https://cdn.test/x/seg1.ts'', ''https://cdn.test/x/master.m3u8?t=1'']
      else RenderFailed ''Navigation timeout of 30000 ms exceeded'')"

section \<open>Substrings\<close>

lemma endsWith_iff: "endsWith s d \<longleftrightarrow> (\<exists>p. s = p @ d)"
proof
  assume "endsWith s d"
  then have "s = take (length s - length d) s @ d"
    by (metis append_take_drop_id endsWith_def)
  then show "\<exists>p. s = p @ d" ..
next
  assume "\<exists>p. s = p @ d"
  then show "endsWith s d" by (auto simp: endsWith_def)
qed

lemma startsWith_iff: "startsWith s p \<longleftrightarrow> (\<exists>q. s = p @ q)"
proof
  assume "startsWith s p"
  then have "s = p @ drop (length p) s"
    by (metis append_take_drop_id startsWith_def)
  then show "\<exists>q. s = p @ q" ..
next
  assume "\<exists>q. s = p @ q"
  then show "startsWith s p" by (auto simp: startsWith_def)
qed

lemma str_includes_iff: "str_includes s sub \<longleftrightarrow> (\<exists>p q. s = p @ sub @ q)"
proof (induction s)
  case Nil
  show ?case by auto
next
  case (Cons c cs)
  show ?case
  proof
    assume "str_includes (c # cs) sub"
    then consider "startsWith (c # cs) sub" | "str_includes cs sub" by auto
    then show "\<exists>p q. c # cs = p @ sub @ q"
    proof cases
      case 1
      then obtain q where "c # cs = sub @ q" unfolding startsWith_iff ..
      then have "c # cs = [] @ sub @ q" by simp
      then show ?thesis by blast
    next
      case 2
      with Cons.IH obtain p q where "cs = p @ sub @ q" by blast
      then have "c # cs = (c # p) @ sub @ q" by simp
      then show ?thesis by blast
    qed
  next
    assume "\<exists>p q. c # cs = p @ sub @ q"
    then obtain p q where pq: "c # cs = p @ sub @ q" by blast
    show "str_includes (c # cs) sub"
    proof (cases p)
      case Nil
      with pq have "startsWith (c # cs) sub" unfolding startsWith_iff by auto
      then show ?thesis by simp
    next
      case (Cons a p')
      with pq have "cs = p' @ sub @ q" by simp
      with Cons.IH have "str_includes cs sub" by blast
      then show ?thesis by simp
    qed
  qed
qed

section \<open>The allowlist guard\<close>

lemma basicURL_sub:
  "basicURL ''https://sub.example.com/x'' None =
     Some \<lparr> href = ''https://sub.example.com/x'', hostname = ''sub.example.com'',
            origin = ''https://sub.example.com'' \<rparr>"
  by code_simp

lemma basicURL_evil:
  "basicURL ''https://example.com.evil.com/x'' None =
     Some \<lparr> href = ''https://example.com.evil.com/x'', hostname = ''example.com.evil.com'',
            origin = ''https://example.com.evil.com'' \<rparr>"
  by code_simp

lemma basicURL_invalid: "basicURL ''not a url'' None = None"
  by code_simp

lemma basicURL_other:
  "basicURL ''https://other.com/'' None =
     Some \<lparr> href = ''https://other.com/'', hostname = ''other.com'', origin = ''https://other.com'' \<rparr>"
  by code_simp

text \<open>
  C1. \<open>isAllowed\<close> denies every string the URL constructor rejects. For a string it parses,
  an empty allowlist allows it, and a non-empty allowlist allows it exactly when its
  hostname is \<open>p @ d\<close> for some configured suffix \<open>d\<close>. With the allowlist
  \<open>["example.com"]\<close>, a URL whose hostname is \<open>sub.example.com\<close> is allowed and one whose
  hostname is \<open>example.com.evil.com\<close> is not.
\<close>

theorem isAllowed_spec:
  "(URL s None = None \<longrightarrow> \<not> isAllowed URL ALLOWLIST s)
   \<and> (\<forall>u. URL s None = Some u \<longrightarrow>
          (ALLOWLIST = [] \<longrightarrow> isAllowed URL ALLOWLIST s)
          \<and> (ALLOWLIST \<noteq> [] \<longrightarrow>
                (isAllowed URL ALLOWLIST s \<longleftrightarrow> (\<exists>d \<in> set ALLOWLIST. \<exists>p. hostname u = p @ d))))
   \<and> (\<forall>u. URL ''https://sub.example.com/x'' None = Some u \<and> hostname u = ''sub.example.com''
          \<longrightarrow> isAllowed URL [''example.com''] ''https://sub.example.com/x'')
   \<and> (\<forall>u. URL ''https://example.com.evil.com/x'' None = Some u
            \<and> hostname u = ''example.com.evil.com''
          \<longrightarrow> \<not> isAllowed URL [''example.com''] ''https://example.com.evil.com/x'')"
proof (intro conjI allI impI)
  assume "URL s None = None"
  then show "\<not> isAllowed URL ALLOWLIST s" by (simp add: isAllowed_def)
next
  fix u assume "URL s None = Some u" "ALLOWLIST = []"
  then show "isAllowed URL ALLOWLIST s" by (simp add: isAllowed_def)
next
  fix u assume "URL s None = Some u" "ALLOWLIST \<noteq> []"
  then show "isAllowed URL ALLOWLIST s \<longleftrightarrow> (\<exists>d \<in> set ALLOWLIST. \<exists>p. hostname u = p @ d)"
    by (simp add: isAllowed_def list_ex_iff endsWith_iff)
next
  fix u
  assume "URL ''https://sub.example.com/x'' None = Some u \<and> hostname u = ''sub.example.com''"
  then show "isAllowed URL [''example.com''] ''https://sub.example.com/x''"
    by (simp add: isAllowed_def endsWith_def)
next
  fix u
  assume "URL ''https://example.com.evil.com/x'' None = Some u
          \<and> hostname u = ''example.com.evil.com''"
  then show "\<not> isAllowed URL [''example.com''] ''https://example.com.evil.com/x''"
    by (simp add: isAllowed_def endsWith_def)
qed

theorem isAllowed_spec_witness:
  "\<not> isAllowed basicURL [''example.com''] ''not a url''
   \<and> isAllowed basicURL [] ''https://other.com/''
   \<and> \<not> isAllowed basicURL [''example.com''] ''https://other.com/''
   \<and> isAllowed basicURL [''example.com''] ''https://sub.example.com/x''
   \<and> \<not> isAllowed basicURL [''example.com''] ''https://example.com.evil.com/x''"
proof -
  have a: "\<not> isAllowed basicURL [''example.com''] ''not a url''"
    using isAllowed_spec [of basicURL "''not a url''" "[''example.com'']"] basicURL_invalid
    by simp
  have b: "isAllowed basicURL [] ''https://other.com/''"
    using isAllowed_spec [of basicURL "''https://other.com/''" "[]"] basicURL_other by simp
  have "\<not> (\<exists>p. ''other.com'' = p @ ''example.com'')"
    by (auto dest!: arg_cong [where f = length])
  then have c: "\<not> isAllowed basicURL [''example.com''] ''https://other.com/''"
    using isAllowed_spec [of basicURL "''https://other.com/''" "[''example.com'']"] basicURL_other
    by simp
  have d: "isAllowed basicURL [''example.com''] ''https://sub.example.com/x''"
    using isAllowed_spec [of basicURL "[]" "[]"] basicURL_sub by simp
  have e: "\<not> isAllowed basicURL [''example.com''] ''https://example.com.evil.com/x''"
    using isAllowed_spec [of basicURL "[]" "[]"] basicURL_evil by simp
  from a b c d e show ?thesis by simp
qed

section \<open>The configured allowlist\<close>

lemma split_comma_not_Nil: "split_comma s \<noteq> []"
  by (induction s) (auto split: list.splits)

lemma split_comma_trailing: "split_comma (v @ '','') = split_comma v @ [[]]"
proof (induction v)
  case Nil
  show ?case by simp
next
  case (Cons c v)
  obtain p ps where "split_comma v = p # ps"
    using split_comma_not_Nil [of v] by (cases "split_comma v") auto
  with Cons show ?case by simp
qed

text \<open>
  C10. When the configured list contains the empty string, every URL the constructor parses
  is allowed, whatever its hostname. A configuration value that ends in a comma yields
  such a list.
\<close>

theorem empty_suffix_open_mode:
  "([] \<in> set ALLOWLIST \<longrightarrow> (\<forall>u. URL s None = Some u \<longrightarrow> isAllowed URL ALLOWLIST s))
   \<and> [] \<in> set (ALLOWLIST_of_env (Some (v @ '','')))"
proof (intro conjI impI allI)
  fix u assume e: "[] \<in> set ALLOWLIST" and u: "URL s None = Some u"
  have "endsWith (hostname u) []" by (simp add: endsWith_def)
  with e have "list_ex (\<lambda>d. endsWith (hostname u) d) ALLOWLIST"
    unfolding list_ex_iff by blast
  with u show "isAllowed URL ALLOWLIST s" by (simp add: isAllowed_def)
next
  have "trim [] = []" by (simp add: trim_def)
  then show "[] \<in> set (ALLOWLIST_of_env (Some (v @ '','')))"
    by (simp add: ALLOWLIST_of_env_def split_comma_trailing)
qed

lemma allowlist_plain: "ALLOWLIST_of_env (Some ''example.com'') = [''example.com'']"
  by code_simp

theorem empty_suffix_open_mode_witness:
  "isAllowed basicURL (ALLOWLIST_of_env (Some ''example.com,'')) ''https://other.com/''
   \<and> \<not> isAllowed basicURL (ALLOWLIST_of_env (Some ''example.com'')) ''https://other.com/''"
proof -
  have "[] \<in> set (ALLOWLIST_of_env (Some ''example.com,''))"
    using empty_suffix_open_mode [of "[]" basicURL "[]" "''example.com''"] by simp
  then have "isAllowed basicURL (ALLOWLIST_of_env (Some ''example.com,'')) ''https://other.com/''"
    using empty_suffix_open_mode [of "ALLOWLIST_of_env (Some ''example.com,'')" basicURL "''https://other.com/''" "[]"]
      basicURL_other by simp
  moreover have "\<not> isAllowed basicURL (ALLOWLIST_of_env (Some ''example.com'')) ''https://other.com/''"
    by (simp add: allowlist_plain isAllowed_def basicURL_other endsWith_def)
  ultimately show ?thesis by simp
qed

section \<open>Insertion into the candidate set\<close>

lemma set_set_add: "set (set_add c x) = insert x (set c)"
  by (auto simp: set_add_def)

lemma distinct_set_add: "distinct c \<Longrightarrow> distinct (set_add c x)"
  by (simp add: set_add_def)

lemma set_foldl_set_add: "set (foldl set_add c ys) = set c \<union> set ys"
  by (induction ys arbitrary: c) (auto simp: set_set_add)

lemma distinct_foldl_set_add: "distinct c \<Longrightarrow> distinct (foldl set_add c ys)"
  by (induction ys arbitrary: c) (auto simp: distinct_set_add)

lemma foldl_set_add_absorb: "set ys \<subseteq> set c \<Longrightarrow> foldl set_add c ys = c"
  by (induction ys arbitrary: c) (auto simp: set_add_def)

lemma foldl_set_add_first_seen:
  "foldl set_add [] xs = rev (remdups (rev xs))"
proof (induction xs rule: rev_induct)
  case Nil
  show ?case by simp
next
  case (snoc x xs)
  have "set (foldl set_add [] xs) = set xs" by (simp add: set_foldl_set_add)
  with snoc show ?case by (simp add: set_add_def)
qed

section \<open>The manifest extractor\<close>

lemma scanLoop_adds: "\<exists>ys. \<forall>c. scanLoop URL baseUrl t i c = foldl set_add c ys"
proof -
  fix c0 :: "string list"
  show ?thesis
  proof (induction URL baseUrl t i c0 rule: scanLoop.induct)
  case (1 URL baseUrl t lastIndex c0)
  show ?case
  proof (cases "re_exec t lastIndex")
    case None
    then have "\<forall>c. scanLoop URL baseUrl t lastIndex c = foldl set_add c []"
      by (simp add: scanLoop.simps)
    then show ?thesis ..
  next
    case (Some mj)
    obtain m j where mj: "mj = (m, j)" by (cases mj)
    from "1" [OF Some [unfolded mj]] 
    obtain ys where ys: "\<forall>c. scanLoop URL baseUrl t j c = foldl set_add c ys"
      by blast
    show ?thesis
    proof (cases "URL m (Some baseUrl)")
      case None
      with Some mj ys have "\<forall>c. scanLoop URL baseUrl t lastIndex c = foldl set_add c ys"
        by (simp add: scanLoop.simps [of URL baseUrl t lastIndex])
      then show ?thesis ..
    next
      case (Some u)
      with \<open>re_exec t lastIndex = Some mj\<close> mj ys
      have "\<forall>c. scanLoop URL baseUrl t lastIndex c = foldl set_add c (href u # ys)"
        by (simp add: scanLoop.simps [of URL baseUrl t lastIndex])
      then show ?thesis ..
    qed
  qed
  qed
qed

lemma scriptPass_adds: "\<exists>ys. \<forall>c. scriptPass URL baseUrl els c = foldl set_add c ys"
proof (induction els)
  case Nil
  have "\<forall>c. scriptPass URL baseUrl [] c = foldl set_add c []" by simp
  then show ?case ..
next
  case (Cons el els)
  then obtain ys where ys: "\<forall>c. scriptPass URL baseUrl els c = foldl set_add c ys" by blast
  obtain zs where zs: "\<forall>c. scanLoop URL baseUrl (innerHtml el) 0 c = foldl set_add c zs"
    using scanLoop_adds by blast
  from ys zs have "\<forall>c. scriptPass URL baseUrl (el # els) c = foldl set_add c (zs @ ys)"
    by simp
  then show ?case ..
qed

lemma domPass_adds:
  "(\<exists>ys. \<forall>c. domPass URL baseUrl els c = Inr (foldl set_add c ys))
   \<or> (\<forall>c. domPass URL baseUrl els c = Inl (TypeError ''Invalid URL''))"
proof (induction els)
  case Nil
  have "\<forall>c. domPass URL baseUrl [] c = Inr (foldl set_add c [])" by simp
  then show ?case by blast
next
  case (Cons el els)
  show ?case
  proof (cases "js_or (attr el ''src'') (attr el ''href'')")
    case None
    then have "\<forall>c. domPass URL baseUrl (el # els) c = domPass URL baseUrl els c" by simp
    with Cons show ?thesis by simp
  next
    case (Some src)
    show ?thesis
    proof (cases "src = []")
      case True
      with Some have "\<forall>c. domPass URL baseUrl (el # els) c = domPass URL baseUrl els c" by simp
      with Cons show ?thesis by simp
    next
      case False
      show ?thesis
      proof (cases "URL src (Some baseUrl)")
        case None
        with Some False show ?thesis by simp
      next
        case (Some u)
        with \<open>js_or (attr el ''src'') (attr el ''href'') = Some src\<close> False
        have step: "\<forall>c. domPass URL baseUrl (el # els) c = domPass URL baseUrl els (set_add c (href u))"
          by simp
        from Cons show ?thesis
        proof
          assume "\<exists>ys. \<forall>c. domPass URL baseUrl els c = Inr (foldl set_add c ys)"
          then obtain ys where "\<forall>c. domPass URL baseUrl els c = Inr (foldl set_add c ys)" ..
          with step have "\<forall>c. domPass URL baseUrl (el # els) c = Inr (foldl set_add c (href u # ys))"
            by simp
          then show ?thesis by blast
        next
          assume "\<forall>c. domPass URL baseUrl els c = Inl (TypeError ''Invalid URL'')"
          with step show ?thesis by simp
        qed
      qed
    qed
  qed
qed

lemma passes_adds:
  "(\<exists>ys. \<forall>c. passes URL load html baseUrl c = Inr (foldl set_add c ys))
   \<or> (\<forall>c. passes URL load html baseUrl c = Inl (TypeError ''Invalid URL''))"
proof -
  obtain ss where ss: "\<forall>c. scriptPass URL baseUrl (filter (\<lambda>el. tagName el = ''script'') (load html)) c
                         = foldl set_add c ss"
    using scriptPass_adds by blast
  obtain rs where rs: "\<forall>c. scanLoop URL baseUrl html 0 c = foldl set_add c rs"
    using scanLoop_adds by blast
  from domPass_adds [of URL baseUrl "filter manifestSelector (load html)"] show ?thesis
  proof
    assume "\<exists>ys. \<forall>c. domPass URL baseUrl (filter manifestSelector (load html)) c
                        = Inr (foldl set_add c ys)"
    then obtain ds where "\<forall>c. domPass URL baseUrl (filter manifestSelector (load html)) c
                         = Inr (foldl set_add c ds)" ..
    with ss rs have "\<forall>c. passes URL load html baseUrl c = Inr (foldl set_add c (ds @ ss @ rs))"
      by (simp add: passes_def)
    then show ?thesis by blast
  next
    assume "\<forall>c. domPass URL baseUrl (filter manifestSelector (load html)) c
               = Inl (TypeError ''Invalid URL'')"
    then show ?thesis by (simp add: passes_def)
  qed
qed

text \<open>
  C9. The result of \<open>extractM3U8\<close> is a function of the HTML text and the base URL alone:
  its set and its patterns are created inside the call, so a second run on the same
  arguments gives the same list in the same order. When it returns a list, the list has
  no duplicates, and the three passes run again over a set that already holds that list
  leave it as it is, order included.
\<close>

theorem extractM3U8_stable_distinct:
  "extractM3U8 URL load html baseUrl = Inr urls
     \<longrightarrow> distinct urls \<and> passes URL load html baseUrl urls = Inr urls"
proof
  assume r: "extractM3U8 URL load html baseUrl = Inr urls"
  from passes_adds [of URL load html baseUrl]
  obtain ys where ys: "\<forall>c. passes URL load html baseUrl c = Inr (foldl set_add c ys)"
    using r by (auto simp: extractM3U8_def)
  with r have u: "urls = foldl set_add [] ys" by (simp add: extractM3U8_def)
  then have d: "distinct urls" by (simp add: distinct_foldl_set_add)
  from u have "set ys \<subseteq> set urls" by (simp add: set_foldl_set_add)
  then have "foldl set_add urls ys = urls" by (rule foldl_set_add_absorb)
  with ys d show "distinct urls \<and> passes URL load html baseUrl urls = Inr urls" by simp
qed

lemma extract_page:
  "extractM3U8 basicURL exampleLoad pageHtml ''https://h.test/p'' =
     Inr [''https://h.test/a.m3u8'', ''https://cdn.test/x/master.m3u8?t=1'']"
  by code_simp

theorem extractM3U8_stable_distinct_witness:
  "extractM3U8 basicURL exampleLoad pageHtml ''https://h.test/p'' =
     Inr [''https://h.test/a.m3u8'', ''https://cdn.test/x/master.m3u8?t=1'']
   \<and> passes basicURL exampleLoad pageHtml ''https://h.test/p''
         [''https://h.test/a.m3u8'', ''https://cdn.test/x/master.m3u8?t=1'']
       = Inr [''https://h.test/a.m3u8'', ''https://cdn.test/x/master.m3u8?t=1'']"
  using extractM3U8_stable_distinct [of basicURL exampleLoad pageHtml "''https://h.test/p''"
      "[''https://h.test/a.m3u8'', ''https://cdn.test/x/master.m3u8?t=1'']"] extract_page
  by simp

lemma domPass_raises:
  "el \<in> set els \<Longrightarrow> js_or (attr el ''src'') (attr el ''href'') = Some src \<Longrightarrow> src \<noteq> []
     \<Longrightarrow> URL src (Some baseUrl) = None
     \<Longrightarrow> domPass URL baseUrl els c = Inl (TypeError ''Invalid URL'')"
proof (induction els arbitrary: c)
  case Nil
  then show ?case by simp
next
  case (Cons e els)
  show ?case
  proof (cases "e = el")
    case True
    with Cons.prems show ?thesis by simp
  next
    case False
    with Cons.prems have "el \<in> set els" by simp
    from Cons.IH [OF this Cons.prems(2,3,4)]
    have "\<And>c. domPass URL baseUrl els c = Inl (TypeError ''Invalid URL'')" .
    then show ?thesis by (simp split: option.split)
  qed
qed

text \<open>
  C3. The claim is that a candidate whose resolution against the base URL fails is dropped
  in every pass and \<open>extractM3U8\<close> never raises. The second and third pass do drop it
  (\<open>scanLoop\<close> has no error result). The first pass does not: when an element selected
  there has a non-empty \<open>src\<close> (or \<open>href\<close>) that the URL constructor rejects, the
  \<open>TypeError\<close> leaves \<open>extractM3U8\<close>.
\<close>

theorem dom_candidate_failure_raises:
  assumes "el \<in> set (load html)" and "manifestSelector el"
    and "js_or (attr el ''src'') (attr el ''href'') = Some src" and "src \<noteq> []"
    and "URL src (Some baseUrl) = None"
  shows "extractM3U8 URL load html baseUrl = Inl (TypeError ''Invalid URL'')"
proof -
  from assms(1,2) have "el \<in> set (filter manifestSelector (load html))" by simp
  from domPass_raises [where URL = URL and baseUrl = baseUrl, OF this assms(3,4,5)]
  show ?thesis by (simp add: extractM3U8_def passes_def)
qed

lemma broken_facts:
  "manifestSelector \<lparr> tagName = ''a'', attribs = [(''href'', ''http://[.m3u8'')], innerHtml = ''x'', innerText = ''x'' \<rparr>"
  "basicURL ''http://[.m3u8'' (Some ''https://h.test/p'') = None"
  by code_simp+

theorem dom_candidate_failure_raises_witness:
  "extractM3U8 basicURL exampleLoad brokenHtml ''https://h.test/p'' = Inl (TypeError ''Invalid URL'')
   \<and> scanLoop basicURL ''https://h.test/p'' brokenHtml 0 [] = []"
proof -
  let ?el = "\<lparr> tagName = ''a'', attribs = [(''href'', ''http://[.m3u8'')], innerHtml = ''x'', innerText = ''x'' \<rparr>"
  have 1: "?el \<in> set (exampleLoad brokenHtml)"
    by (simp add: exampleLoad_def brokenDoc_def brokenHtml_def pageHtml_def)
  have 2: "js_or (attr ?el ''src'') (attr ?el ''href'') = Some ''http://[.m3u8''"
    by (simp add: js_or_def truthy_def attr_def)
  have "extractM3U8 basicURL exampleLoad brokenHtml ''https://h.test/p'' = Inl (TypeError ''Invalid URL'')"
    using dom_candidate_failure_raises [where URL = basicURL and baseUrl = "''https://h.test/p''"
        and load = exampleLoad and html = brokenHtml, OF 1 broken_facts(1) 2 _ broken_facts(2)]
    by simp
  moreover have "scanLoop basicURL ''https://h.test/p'' brokenHtml 0 [] = []"
    by code_simp
  ultimately show ?thesis by simp
qed

section \<open>Candidates in the rendered variant\<close>

lemma foldl_onRequest:
  "foldl onRequest c reqs = foldl set_add c (filter (\<lambda>u. str_includes u ''.m3u8'') reqs)"
  by (induction reqs arbitrary: c) (auto simp: onRequest_def)

lemma observed_eq:
  "foldl onRequest [] reqs = rev (remdups (rev (filter (\<lambda>u. \<exists>p q. u = p @ ''.m3u8'' @ q) reqs)))"
proof -
  have "(\<lambda>u. str_includes u ''.m3u8'') = (\<lambda>u. \<exists>p q. u = p @ ''.m3u8'' @ q)"
    by (simp add: str_includes_iff)
  then show ?thesis by (simp add: foldl_onRequest foldl_set_add_first_seen)
qed

text \<open>
  C5. In the rendered variant, for an allowed target that the browser renders, the
  \<open>m3u8Urls\<close> of the response are the URLs of the observed requests that contain
  \<open>.m3u8\<close>, each once, in the order in which they were first seen. The rendered HTML
  plays no part in them.
\<close>

theorem rendered_candidates_from_network:
  assumes "target \<noteq> []" and "isAllowed URL ALLOWLIST target"
    and "render target = Rendered finalUrl html reqs"
  shows "bodyField (scrape_rendered URL load ALLOWLIST render (Some target)) ''m3u8Urls'' =
           Some (JArr (map JStr (rev (remdups (rev (filter (\<lambda>u. \<exists>p q. u = p @ ''.m3u8'' @ q) reqs))))))"
  using assms by (simp add: scrape_rendered_def Let_def scrapeOk_def bodyField_def observed_eq)

lemma page_url:
  "basicURL ''https://h.test/p'' None =
     Some \<lparr> href = ''https://h.test/p'', hostname = ''h.test'', origin = ''https://h.test'' \<rparr>"
  by code_simp

lemma rendered_page_urls:
  "bodyField (scrape_rendered basicURL exampleLoad [] exampleRender (Some ''https://h.test/p'')) ''m3u8Urls''
     = Some (JArr [JStr ''https://cdn.test/x/master.m3u8?t=1''])"
  by code_simp

theorem rendered_candidates_from_network_witness:
  "bodyField (scrape_rendered basicURL exampleLoad [] exampleRender (Some ''https://h.test/p'')) ''m3u8Urls''
     = Some (JArr [JStr ''https://cdn.test/x/master.m3u8?t=1''])"
proof -
  have a: "isAllowed basicURL [] ''https://h.test/p''"
    by (simp add: isAllowed_def page_url)
  have r: "exampleRender ''https://h.test/p'' = Rendered ''https://h.test/p'' pageHtml
             [''https://h.test/p'', ''https://cdn.test/x/master.m3u8?t=1'',
              ''https://cdn.test/x/seg1.ts'', ''https://cdn.test/x/master.m3u8?t=1'']"
    by (simp add: exampleRender_def)
  have f: "filter (\<lambda>u. \<exists>p q. u = p @ ''.m3u8'' @ q)
             [''https://h.test/p'', ''https://cdn.test/x/master.m3u8?t=1'',
              ''https://cdn.test/x/seg1.ts'', ''https://cdn.test/x/master.m3u8?t=1'']
           = [''https://cdn.test/x/master.m3u8?t=1'', ''https://cdn.test/x/master.m3u8?t=1'']"
    unfolding str_includes_iff [symmetric] by code_simp
  have "''https://h.test/p'' \<noteq> []" by simp
  from rendered_candidates_from_network [where URL = basicURL and load = exampleLoad
      and render = exampleRender, OF this a r]
  show ?thesis unfolding f by simp
qed

text \<open>
  The claim C5 as stated fails: the manifest extractor finds two candidates in the
  rendered HTML of the example page, and the response of the rendered variant lists only
  the one that was also requested on the network.
\<close>

theorem rendered_omits_html_candidate:
  "extractM3U8 basicURL exampleLoad pageHtml ''https://h.test/p'' =
     Inr [''https://h.test/a.m3u8'', ''https://cdn.test/x/master.m3u8?t=1'']
   \<and> exampleRender ''https://h.test/p'' = Rendered ''https://h.test/p'' pageHtml
         [''https://h.test/p'', ''https://cdn.test/x/master.m3u8?t=1'',
          ''https://cdn.test/x/seg1.ts'', ''https://cdn.test/x/master.m3u8?t=1'']
   \<and> bodyField (scrape_rendered basicURL exampleLoad [] exampleRender (Some ''https://h.test/p'')) ''m3u8Urls''
       = Some (JArr [JStr ''https://cdn.test/x/master.m3u8?t=1''])"
  by (simp add: extract_page rendered_page_urls exampleRender_def)

section \<open>Candidates are non-empty strings\<close>

lemma scanLoop_nonempty:
  "(\<forall>s u. URL s (Some baseUrl) = Some u \<longrightarrow> href u \<noteq> []) \<Longrightarrow> [] \<notin> set c
     \<Longrightarrow> [] \<notin> set (scanLoop URL baseUrl t i c)"
proof (induction URL baseUrl t i c rule: scanLoop.induct)
  case (1 URL baseUrl t lastIndex candidates)
  show ?case
  proof (cases "re_exec t lastIndex")
    case None
    with "1.prems" show ?thesis by (simp add: scanLoop.simps)
  next
    case (Some mj)
    obtain m j where mj: "mj = (m, j)" by (cases mj)
    define c' where "c' = (case URL m (Some baseUrl) of
                             None \<Rightarrow> candidates | Some u \<Rightarrow> set_add candidates (href u))"
    have c': "[] \<notin> set c'"
    proof (cases "URL m (Some baseUrl)")
      case None
      with "1.prems"(2) show ?thesis by (simp add: c'_def)
    next
      case (Some u)
      with "1.prems"(1) have "href u \<noteq> []" by blast
      with Some "1.prems"(2) show ?thesis by (auto simp: c'_def set_set_add)
    qed
    have re: "re_exec t lastIndex = Some (m, j)" using Some mj by simp
    have "[] \<notin> set (scanLoop URL baseUrl t j c')"
      using "1.IH" [of "(m, j)" m j] re "1.prems"(1) c' unfolding c'_def by blast
    then show ?thesis
      using re by (simp add: scanLoop.simps [of URL baseUrl t lastIndex] c'_def)
  qed
qed

lemma scriptPass_nonempty:
  "(\<forall>s u. URL s (Some baseUrl) = Some u \<longrightarrow> href u \<noteq> []) \<Longrightarrow> [] \<notin> set c
     \<Longrightarrow> [] \<notin> set (scriptPass URL baseUrl els c)"
proof (induction els arbitrary: c)
  case Nil
  then show ?case by simp
next
  case (Cons el els)
  have "[] \<notin> set (scanLoop URL baseUrl (innerHtml el) 0 c)"
    using Cons.prems by (rule scanLoop_nonempty)
  with Cons.IH Cons.prems(1) show ?case by simp
qed

lemma domPass_nonempty:
  "(\<forall>s u. URL s (Some baseUrl) = Some u \<longrightarrow> href u \<noteq> []) \<Longrightarrow> [] \<notin> set c
     \<Longrightarrow> domPass URL baseUrl els c = Inr c' \<Longrightarrow> [] \<notin> set c'"
proof (induction els arbitrary: c)
  case Nil
  then show ?case by simp
next
  case (Cons el els)
  show ?case
  proof (cases "js_or (attr el ''src'') (attr el ''href'')")
    case None
    with Cons.prems(3) have "domPass URL baseUrl els c = Inr c'" by simp
    with Cons.IH Cons.prems(1,2) show ?thesis by blast
  next
    case (Some src)
    show ?thesis
    proof (cases "src = []")
      case True
      with Some Cons.prems(3) have "domPass URL baseUrl els c = Inr c'" by simp
      with Cons.IH Cons.prems(1,2) show ?thesis by blast
    next
      case False
      with Some Cons.prems(3) obtain u where u: "URL src (Some baseUrl) = Some u"
        and d: "domPass URL baseUrl els (set_add c (href u)) = Inr c'"
        by (auto split: option.splits)
      from u Cons.prems(1) have "href u \<noteq> []" by blast
      with Cons.prems(2) have "[] \<notin> set (set_add c (href u))"
        by (auto simp: set_set_add)
      with Cons.IH Cons.prems(1) d show ?thesis by blast
    qed
  qed
qed

lemma extracted_candidates_nonempty:
  assumes "\<forall>s u. URL s (Some baseUrl) = Some u \<longrightarrow> href u \<noteq> []"
    and "extractM3U8 URL load html baseUrl = Inr urls"
  shows "[] \<notin> set urls"
proof -
  from assms(2) obtain c1 where d: "domPass URL baseUrl (filter manifestSelector (load html)) [] = Inr c1"
    and u: "urls = scanLoop URL baseUrl html 0
               (scriptPass URL baseUrl (filter (\<lambda>el. tagName el = ''script'') (load html)) c1)"
    by (auto simp: extractM3U8_def passes_def split: sum.splits)
  have "[] \<notin> set c1"
    using assms(1) d domPass_nonempty [of URL baseUrl "[]"] by fastforce
  with assms(1) have "[] \<notin> set (scriptPass URL baseUrl (filter (\<lambda>el. tagName el = ''script'') (load html)) c1)"
    by (rule scriptPass_nonempty)
  with assms(1) show ?thesis unfolding u by (rule scanLoop_nonempty)
qed

lemma observed_candidates_nonempty: "[] \<notin> set (foldl onRequest [] reqs)"
proof -
  have step: "[] \<notin> set c \<Longrightarrow> [] \<notin> set (onRequest c a)" for c a
  proof (cases "str_includes a ''.m3u8''")
    case True
    assume c: "[] \<notin> set c"
    from True have "a \<noteq> []" by auto
    with c True show ?thesis by (auto simp: onRequest_def set_set_add)
  next
    case False
    assume "[] \<notin> set c"
    with False show ?thesis by (simp add: onRequest_def)
  qed
  have "[] \<notin> set c \<Longrightarrow> [] \<notin> set (foldl onRequest c reqs)" for c
  proof (induction reqs arbitrary: c)
    case Nil
    then show ?case by simp
  next
    case (Cons a reqs)
    from Cons.prems have "[] \<notin> set (onRequest c a)" by (rule step)
    then have "[] \<notin> set (foldl onRequest (onRequest c a) reqs)" by (rule Cons.IH)
    then show ?case by simp
  qed
  from this [of "[]"] show ?thesis by simp
qed

section \<open>The candidate selector\<close>

lemma tokenTest_iff: "tokenTest u \<longleftrightarrow> mentionsToken u"
  by (simp add: tokenTest_def mentionsToken_def str_includes_iff)

lemma tokenTest_nonempty: "tokenTest u \<Longrightarrow> u \<noteq> []"
  by (auto simp: tokenTest_def)

lemma pickBest_eq:
  "pickBest urls = (case List.find tokenTest urls of
                      Some u \<Rightarrow> Some u
                    | None \<Rightarrow> (case urls of [] \<Rightarrow> None | u # _ \<Rightarrow> if u = [] then None else Some u))"
proof (cases "List.find tokenTest urls")
  case None
  then show ?thesis by (simp add: pickBest_def js_or_def truthy_def split: list.splits)
next
  case (Some u)
  then have "tokenTest u" by (auto simp: find_Some_iff)
  then have "u \<noteq> []" by (rule tokenTest_nonempty)
  with Some show ?thesis by (simp add: pickBest_def js_or_def truthy_def)
qed

text \<open>
  C6. For a list of candidates, none of them the empty string: the selector returns the
  first candidate, in list order, whose text contains \<open>master\<close>, \<open>index\<close> or
  \<open>playlist\<close> without regard to case; when no candidate does, the first candidate; for
  the empty list, \<open>null\<close>. A candidate is the text of a URL, and the lists the handlers
  select from contain no empty string (\<open>extracted_candidates_nonempty\<close>,
  \<open>observed_candidates_nonempty\<close>).
\<close>

theorem pickBest_spec:
  assumes "[] \<notin> set urls"
  shows "(\<forall>i < length urls. mentionsToken (urls ! i) \<and> (\<forall>j < i. \<not> mentionsToken (urls ! j))
             \<longrightarrow> pickBest urls = Some (urls ! i))
         \<and> (urls \<noteq> [] \<and> (\<forall>u \<in> set urls. \<not> mentionsToken u) \<longrightarrow> pickBest urls = Some (hd urls))
         \<and> (urls = [] \<longrightarrow> pickBest urls = None)"
proof (intro conjI allI impI)
  fix i assume i: "i < length urls"
    and m: "mentionsToken (urls ! i) \<and> (\<forall>j < i. \<not> mentionsToken (urls ! j))"
  then have "List.find tokenTest urls = Some (urls ! i)"
    unfolding find_Some_iff tokenTest_iff by blast
  then show "pickBest urls = Some (urls ! i)" by (simp add: pickBest_eq)
next
  assume a: "urls \<noteq> [] \<and> (\<forall>u \<in> set urls. \<not> mentionsToken u)"
  then have "List.find tokenTest urls = None"
    unfolding find_None_iff tokenTest_iff by blast
  moreover from a assms have "hd urls \<noteq> []" by (cases urls) auto
  ultimately show "pickBest urls = Some (hd urls)"
    using a by (cases urls) (auto simp: pickBest_eq)
next
  assume "urls = []"
  then show "pickBest urls = None" by (simp add: pickBest_eq)
qed

theorem pickBest_spec_witness:
  "pickBest [''https://x/seg1.m3u8'', ''https://x/master.m3u8''] = Some ''https://x/master.m3u8''
   \<and> pickBest [''https://x/a.m3u8''] = Some ''https://x/a.m3u8''
   \<and> pickBest [] = None"
proof -
  have m: "mentionsToken ''https://x/master.m3u8''"
    unfolding tokenTest_iff [symmetric] by code_simp
  have s: "\<not> mentionsToken ''https://x/seg1.m3u8''"
    unfolding tokenTest_iff [symmetric] by code_simp
  have a: "\<not> mentionsToken ''https://x/a.m3u8''"
    unfolding tokenTest_iff [symmetric] by code_simp
  have 1: "pickBest [''https://x/seg1.m3u8'', ''https://x/master.m3u8''] = Some ''https://x/master.m3u8''"
    using pickBest_spec [of "[''https://x/seg1.m3u8'', ''https://x/master.m3u8'']"] m s
    by (auto simp: less_Suc_eq all_conj_distrib)
  have 2: "pickBest [''https://x/a.m3u8''] = Some ''https://x/a.m3u8''"
    using pickBest_spec [of "[''https://x/a.m3u8'']"] a by simp
  have 3: "pickBest [] = None"
    using pickBest_spec [of "[]"] by simp
  from 1 2 3 show ?thesis by simp
qed

section \<open>Selection and candidate list in a response\<close>

lemma pickBest_mem: "pickBest urls = Some b \<Longrightarrow> b \<in> set urls"
  by (auto simp: pickBest_eq find_Some_iff split: option.splits list.splits if_splits)

lemma selectionConsistent_scrapeOk:
  "selectionConsistent (scrapeOk page meta urls (pickBest urls))"
  by (cases "pickBest urls")
     (auto simp: selectionConsistent_def bodyField_def scrapeOk_def cors_def json_of_opt_def
           dest: pickBest_mem)

lemma selectionConsistent_scrapeError: "selectionConsistent (scrapeError fallback msg)"
  by (simp add: selectionConsistent_def bodyField_def scrapeError_def cors_def)

lemma selectionConsistent_early:
  "selectionConsistent (cors \<lparr> status := st, body := JsonBody (JObj [(''error'', e)]) \<rparr>)"
  "selectionConsistent (cors \<lparr> status := st, body := JsonBody (JObj [(''ok'', b), (''error'', e)]) \<rparr>)"
  by (simp_all add: selectionConsistent_def bodyField_def)

lemma best_present_scrapeOk: "bodyField (scrapeOk page meta urls best) ''best'' = Some (json_of_opt best)"
  by (simp add: bodyField_def scrapeOk_def)

lemma status_scrapeError: "status (scrapeError fallback msg) = 500"
  by (simp add: scrapeError_def)

text \<open>
  C7. In every response of \<open>/scrape\<close>, of either variant, \<open>best\<close> is \<open>null\<close> or a
  member of the \<open>m3u8Urls\<close> the same response carries; a response with status 200 has
  a \<open>best\<close> member.
\<close>

theorem best_member_of_candidates:
  "selectionConsistent (scrape_static URL load ALLOWLIST net q)
   \<and> selectionConsistent (scrape_rendered URL load ALLOWLIST render q)
   \<and> (status (scrape_static URL load ALLOWLIST net q) = 200
        \<longrightarrow> bodyField (scrape_static URL load ALLOWLIST net q) ''best'' \<noteq> None)
   \<and> (status (scrape_rendered URL load ALLOWLIST render q) = 200
        \<longrightarrow> bodyField (scrape_rendered URL load ALLOWLIST render q) ''best'' \<noteq> None)"
proof (intro conjI)
  show "selectionConsistent (scrape_static URL load ALLOWLIST net q)"
    by (simp add: scrape_static_def Let_def selectionConsistent_scrapeOk
          selectionConsistent_scrapeError selectionConsistent_early
          split: option.split sum.split js_error.split)
  show "selectionConsistent (scrape_rendered URL load ALLOWLIST render q)"
    by (simp add: scrape_rendered_def Let_def selectionConsistent_scrapeOk
          selectionConsistent_scrapeError selectionConsistent_early
          split: option.split render_outcome.split)
  show "status (scrape_static URL load ALLOWLIST net q) = 200
        \<longrightarrow> bodyField (scrape_static URL load ALLOWLIST net q) ''best'' \<noteq> None"
    by (simp add: scrape_static_def Let_def best_present_scrapeOk status_scrapeError
          split: option.split sum.split js_error.split)
  show "status (scrape_rendered URL load ALLOWLIST render q) = 200
        \<longrightarrow> bodyField (scrape_rendered URL load ALLOWLIST render q) ''best'' \<noteq> None"
    by (simp add: scrape_rendered_def Let_def best_present_scrapeOk status_scrapeError
          split: option.split render_outcome.split)
qed

lemma static_page:
  "scrape_static basicURL exampleLoad [] exampleNet (Some ''https://h.test/p'') =
     scrapeOk ''https://h.test/p''
       \<lparr> title = None, ogTitle = None, ogVideo = None, ogDescription = None \<rparr>
       [''https://h.test/a.m3u8'', ''https://cdn.test/x/master.m3u8?t=1'']
       (Some ''https://cdn.test/x/master.m3u8?t=1'')"
  by code_simp

theorem best_member_of_candidates_witness:
  "selectionConsistent (scrape_static basicURL exampleLoad [] exampleNet (Some ''https://h.test/p''))
   \<and> bodyField (scrape_static basicURL exampleLoad [] exampleNet (Some ''https://h.test/p'')) ''best''
       = Some (JStr ''https://cdn.test/x/master.m3u8?t=1'')
   \<and> bodyField (scrape_static basicURL exampleLoad [] exampleNet (Some ''https://h.test/p'')) ''m3u8Urls''
       = Some (JArr [JStr ''https://h.test/a.m3u8'', JStr ''https://cdn.test/x/master.m3u8?t=1''])"
  using best_member_of_candidates [of basicURL exampleLoad "[]" exampleNet "Some ''https://h.test/p''"
      exampleRender]
  by (simp add: static_page scrapeOk_def bodyField_def json_of_opt_def)

section \<open>The status codes of /scrape\<close>

lemma scrape_rendered_statuses:
  "(q = None \<or> q = Some [] \<longrightarrow>
      status (scrape_rendered URL load ALLOWLIST render q) = 400
      \<and> bodyField (scrape_rendered URL load ALLOWLIST render q) ''ok'' = Some (JBool False))
   \<and> (\<forall>t. q = Some t \<and> t \<noteq> [] \<and> \<not> isAllowed URL ALLOWLIST t \<longrightarrow>
          status (scrape_rendered URL load ALLOWLIST render q) = 403)
   \<and> (\<forall>t msg. q = Some t \<and> t \<noteq> [] \<and> isAllowed URL ALLOWLIST t \<and> render t = RenderFailed msg \<longrightarrow>
          status (scrape_rendered URL load ALLOWLIST render q) = 500
          \<and> bodyField (scrape_rendered URL load ALLOWLIST render q) ''ok'' = Some (JBool False)
          \<and> bodyField (scrape_rendered URL load ALLOWLIST render q) ''error''
              = Some (JStr (if msg \<noteq> [] then msg else ''Puppeteer failed'')))
   \<and> (\<forall>t finalUrl html reqs. q = Some t \<and> t \<noteq> [] \<and> isAllowed URL ALLOWLIST t
          \<and> render t = Rendered finalUrl html reqs \<longrightarrow>
          status (scrape_rendered URL load ALLOWLIST render q) = 200
          \<and> bodyField (scrape_rendered URL load ALLOWLIST render q) ''ok'' = Some (JBool True))"
  by (auto simp: scrape_rendered_def bodyField_def scrapeError_def scrapeOk_def cors_def Let_def)

lemma scrape_static_statuses:
  "(\<forall>t. q = Some t \<and> t \<noteq> [] \<and> \<not> isAllowed URL ALLOWLIST t \<longrightarrow>
          status (scrape_static URL load ALLOWLIST net q) = 403)
   \<and> (\<forall>t msg. q = Some t \<and> t \<noteq> [] \<and> isAllowed URL ALLOWLIST t
          \<and> net (pageRequest t) = NetworkError msg \<longrightarrow>
          status (scrape_static URL load ALLOWLIST net q) = 500
          \<and> bodyField (scrape_static URL load ALLOWLIST net q) ''ok'' = Some (JBool False)
          \<and> bodyField (scrape_static URL load ALLOWLIST net q) ''error''
              = Some (JStr (if msg \<noteq> [] then msg else ''Fetch failed'')))"
  by (auto simp: scrape_static_def bodyField_def scrapeError_def cors_def axios_get_def)

text \<open>
  C4. The claim is that \<open>/scrape\<close> answers a request without \<open>url\<close> with status 400 and
  a JSON body containing \<open>ok: false\<close> (and 403, 500 with \<open>ok: false\<close>, 200 with
  \<open>ok: true\<close> in the other cases). The rendered variant does
  (\<open>scrape_rendered_statuses\<close>). The static variant answers 400 with the body
  \<open>{ error: 'Missing ?url=' }\<close>, which has no \<open>ok\<close> member.
\<close>

theorem scrape_static_missing_url:
  "status (scrape_static URL load ALLOWLIST net None) = 400
   \<and> bodyField (scrape_static URL load ALLOWLIST net None) ''error'' = Some (JStr ''Missing ?url='')
   \<and> bodyField (scrape_static URL load ALLOWLIST net None) ''ok'' = None
   \<and> status (scrape_rendered URL load ALLOWLIST render None) = 400
   \<and> bodyField (scrape_rendered URL load ALLOWLIST render None) ''ok'' = Some (JBool False)"
  by (simp add: scrape_static_def scrape_rendered_def bodyField_def)

theorem scrape_static_missing_url_witness:
  "bodyField (scrape_static basicURL exampleLoad [] exampleNet None) ''ok'' = None
   \<and> bodyField (scrape_rendered basicURL exampleLoad [] exampleRender None) ''ok'' = Some (JBool False)"
  using scrape_static_missing_url [of basicURL exampleLoad "[]" exampleNet exampleRender] by simp

lemma static_broken:
  "scrape_static basicURL exampleLoad [] exampleNet (Some ''https://h.test/broken'') =
     scrapeError ''Fetch failed'' ''Invalid URL''"
  by code_simp

section \<open>The stream relay\<close>

lemma proxy_allowed:
  assumes "src \<noteq> []" and "isAllowed URL ALLOWLIST src" and "URL src None = Some u"
  shows "proxy URL ALLOWLIST net (Some src) rangeHeader =
           (case axios_get (\<lambda>s. 200 \<le> s \<and> s < 400) (net (proxyRequest u src rangeHeader)) of
              Inl msg \<Rightarrow> (upstreamError msg, [proxyRequest u src rangeHeader])
            | Inr upstream \<Rightarrow>
                (cors \<lparr> headers := setHeader ''Access-Control-Allow-Origin'' ''*''
                                     (mirrorHeaders (resp_headers upstream) (headers cors)),
                        body := StreamBody (resp_data upstream) \<rparr>,
                 [proxyRequest u src rangeHeader]))"
  using assms by (simp add: proxy_def Let_def)

text \<open>
  C2. The claim is that the response of a successful \<open>/proxy\<close> request carries the
  upstream status code. The handler sets headers and pipes the body, and never sets the
  status: whatever status in the range from 200 up to, not including, 400 the upstream
  response has, the caller receives 200 with the upstream body.
\<close>

theorem proxy_success_status:
  assumes "src \<noteq> []" and "isAllowed URL ALLOWLIST src" and "URL src None = Some u"
    and "net (proxyRequest u src rangeHeader) = HttpResponse r"
    and "200 \<le> resp_status r" and "resp_status r < 400"
  shows "status (fst (proxy URL ALLOWLIST net (Some src) rangeHeader)) = 200
         \<and> body (fst (proxy URL ALLOWLIST net (Some src) rangeHeader)) = StreamBody (resp_data r)"
  using assms(4,5,6) by (simp add: proxy_allowed [OF assms(1,2,3)] axios_get_def cors_def)

lemma seg_url:
  "basicURL ''https://cdn.test/x/seg1.ts'' None =
     Some \<lparr> href = ''https://cdn.test/x/seg1.ts'', hostname = ''cdn.test'', origin = ''https://cdn.test'' \<rparr>"
  by code_simp

lemma seg_upstream:
  "exampleNet (proxyRequest \<lparr> href = ''https://cdn.test/x/seg1.ts'', hostname = ''cdn.test'',
                              origin = ''https://cdn.test'' \<rparr>
                 ''https://cdn.test/x/seg1.ts'' (Some ''bytes=0-99'')) =
     HttpResponse \<lparr> resp_status = 206,
                    resp_headers = [(''content-type'', ''video/mp2t''), (''content-length'', ''100''),
                                    (''content-range'', ''bytes 0-99/1000''), (''server'', ''cdn'')],
                    resp_data = ''first hundred bytes'',
                    responseUrl = Some ''https://cdn.test/x/seg1.ts'' \<rparr>"
  by (simp add: exampleNet_def proxyRequest_def js_or_def truthy_def)

theorem proxy_success_status_witness:
  "status (fst (proxy basicURL [] exampleNet (Some ''https://cdn.test/x/seg1.ts'') (Some ''bytes=0-99''))) = 200
   \<and> body (fst (proxy basicURL [] exampleNet (Some ''https://cdn.test/x/seg1.ts'') (Some ''bytes=0-99'')))
       = StreamBody ''first hundred bytes''"
proof -
  have a: "isAllowed basicURL [] ''https://cdn.test/x/seg1.ts''"
    by (simp add: isAllowed_def seg_url)
  show ?thesis
    using proxy_success_status [where URL = basicURL and net = exampleNet, OF _ a seg_url seg_upstream]
    by simp
qed

lemma seg_headers:
  "map_of (headers (fst (proxy basicURL [] exampleNet (Some ''https://cdn.test/x/seg1.ts'') (Some ''bytes=0-99''))))
     ''content-range'' = Some ''bytes 0-99/1000''"
  by code_simp

text \<open>
  C8. For an allowed \<open>src\<close>, the handler issues one upstream request and no second one.
  A network fault, and a response whose status is outside the range from 200 up to, not
  including, 400, give status 502 with a text body that starts with \<open>Upstream error:\<close>
  and continues with the fault's message (for a refused status, the client's message
  naming that status); a response with a status inside the range does not give 502.
\<close>

theorem proxy_upstream_failure:
  assumes "src \<noteq> []" and "isAllowed URL ALLOWLIST src" and "URL src None = Some u"
  shows "(\<forall>msg. net (proxyRequest u src rangeHeader) = NetworkError msg \<longrightarrow>
            proxy URL ALLOWLIST net (Some src) rangeHeader
              = (upstreamError msg, [proxyRequest u src rangeHeader]))
         \<and> (\<forall>r. net (proxyRequest u src rangeHeader) = HttpResponse r
                 \<and> \<not> (200 \<le> resp_status r \<and> resp_status r < 400) \<longrightarrow>
               proxy URL ALLOWLIST net (Some src) rangeHeader
                 = (upstreamError (''Request failed with status code '' @ show_nat (resp_status r)),
                    [proxyRequest u src rangeHeader]))
         \<and> (\<forall>r. net (proxyRequest u src rangeHeader) = HttpResponse r
                 \<and> 200 \<le> resp_status r \<and> resp_status r < 400 \<longrightarrow>
               status (fst (proxy URL ALLOWLIST net (Some src) rangeHeader)) \<noteq> 502
               \<and> snd (proxy URL ALLOWLIST net (Some src) rangeHeader) = [proxyRequest u src rangeHeader])
         \<and> (\<forall>msg. status (upstreamError msg) = 502
                 \<and> (\<exists>rest. body (upstreamError msg) = TextBody (''Upstream error:'' @ rest))
                 \<and> (msg \<noteq> [] \<longrightarrow> body (upstreamError msg) = TextBody (''Upstream error: '' @ msg)))"
proof (intro conjI allI impI)
  fix msg assume "net (proxyRequest u src rangeHeader) = NetworkError msg"
  then show "proxy URL ALLOWLIST net (Some src) rangeHeader
              = (upstreamError msg, [proxyRequest u src rangeHeader])"
    by (simp add: proxy_allowed [OF assms] axios_get_def)
next
  fix r assume "net (proxyRequest u src rangeHeader) = HttpResponse r
                 \<and> \<not> (200 \<le> resp_status r \<and> resp_status r < 400)"
  then show "proxy URL ALLOWLIST net (Some src) rangeHeader
                 = (upstreamError (''Request failed with status code '' @ show_nat (resp_status r)),
                    [proxyRequest u src rangeHeader])"
    by (auto simp: proxy_allowed [OF assms] axios_get_def)
next
  fix r assume a: "net (proxyRequest u src rangeHeader) = HttpResponse r
                 \<and> 200 \<le> resp_status r \<and> resp_status r < 400"
  then show "status (fst (proxy URL ALLOWLIST net (Some src) rangeHeader)) \<noteq> 502"
    by (simp add: proxy_allowed [OF assms] axios_get_def cors_def)
  from a show "snd (proxy URL ALLOWLIST net (Some src) rangeHeader) = [proxyRequest u src rangeHeader]"
    by (simp add: proxy_allowed [OF assms] axios_get_def)
next
  fix msg show "status (upstreamError msg) = 502" by (simp add: upstreamError_def)
  show "\<exists>rest. body (upstreamError msg) = TextBody (''Upstream error:'' @ rest)"
    by (simp add: upstreamError_def)
  assume "msg \<noteq> []"
  then show "body (upstreamError msg) = TextBody (''Upstream error: '' @ msg)"
    by (simp add: upstreamError_def)
qed

lemma missing_url:
  "basicURL ''https://cdn.test/missing.m3u8'' None =
     Some \<lparr> href = ''https://cdn.test/missing.m3u8'', hostname = ''cdn.test'', origin = ''https://cdn.test'' \<rparr>"
  by code_simp

lemma show_404: "show_nat 404 = ''404''"
  by code_simp

theorem proxy_upstream_failure_witness:
  "proxy basicURL [] exampleNet (Some ''https://cdn.test/missing.m3u8'') None =
     (cors \<lparr> status := 502, body := TextBody ''Upstream error: Request failed with status code 404'' \<rparr>,
      [\<lparr> req_url = ''https://cdn.test/missing.m3u8'', req_userAgent = userAgent, req_range = None,
         req_referer = Some ''https://cdn.test'', req_maxRedirects = 5, req_timeout = 20000 \<rparr>])"
proof -
  have a: "isAllowed basicURL [] ''https://cdn.test/missing.m3u8''"
    by (simp add: isAllowed_def missing_url)
  have n: "exampleNet (proxyRequest \<lparr> href = ''https://cdn.test/missing.m3u8'', hostname = ''cdn.test'',
                                      origin = ''https://cdn.test'' \<rparr> ''https://cdn.test/missing.m3u8'' None)
           = HttpResponse \<lparr> resp_status = 404, resp_headers = [], resp_data = ''not found'',
                          responseUrl = Some ''https://cdn.test/missing.m3u8'' \<rparr>"
    by (simp add: exampleNet_def proxyRequest_def)
  show ?thesis
    using proxy_upstream_failure [where URL = basicURL and net = exampleNet and rangeHeader = None,
        OF _ a missing_url] n
    by (simp add: show_404 upstreamError_def proxyRequest_def js_or_def truthy_def)
qed

end
